theory Spec2Isabelle
  imports Main "HOL-Library.Sublist"
begin

chapter \<open>The model\<close>

section \<open>Exceptions raised by the modelled code\<close>

text \<open>
  Every exception that the modelled Python can raise is a value of this type; a function
  that may raise returns a sum whose left injection carries the exception.
\<close>

datatype error = ValidationError | IntegrityError | DoesNotExist | OverflowError

text \<open>
  Python truthiness of a primary key, as tested by \<^verbatim>\<open>if self.id:\<close> and
  \<^verbatim>\<open>not self.instance.id\<close>: \<^verbatim>\<open>None\<close> and \<^verbatim>\<open>0\<close> are false.
\<close>

fun truthy_id :: "nat option \<Rightarrow> bool" where
  "truthy_id None = False"
| "truthy_id (Some n) = (n \<noteq> 0)"

section \<open>Dates and durations\<close>

text \<open>
  A naive \<^verbatim>\<open>datetime.datetime\<close> is the number of microseconds since
  0001-01-01T00:00:00; the largest one is 9999-12-31T23:59:59.999999. A
  \<^verbatim>\<open>datetime.timedelta\<close> is a number of microseconds. \<^verbatim>\<open>timedelta(days=d)\<close>
  raises OverflowError beyond 999999999 days, and adding a duration to a date raises
  OverflowError when the sum leaves the range of dates.
\<close>

type_synonym datetime = int
type_synonym timedelta = int

definition us_per_day :: int where
  "us_per_day = 86400000000"

definition datetime_max :: datetime where
  "datetime_max = 3652059 * us_per_day - 1"

definition valid_datetime :: "datetime \<Rightarrow> bool" where
  "valid_datetime t = (0 \<le> t \<and> t \<le> datetime_max)"

definition timedelta_of_days :: "int \<Rightarrow> error + timedelta" where
  "timedelta_of_days d =
     (if d < - 999999999 \<or> 999999999 < d then Inl OverflowError else Inr (d * us_per_day))"

definition datetime_add :: "datetime \<Rightarrow> timedelta \<Rightarrow> error + datetime" where
  "datetime_add t d = (if valid_datetime (t + d) then Inr (t + d) else Inl OverflowError)"

section \<open>models.py: settings and LoginRegistration.has\_expired\<close>

definition DEFAULT_ACCOUNT_ACTIVATION_DAYS :: int where
  "DEFAULT_ACCOUNT_ACTIVATION_DAYS = 15"

text \<open>
  The one setting this module reads. \<^verbatim>\<open>getattr(settings, 'ACCOUNT_ACTIVATION_DAYS',
  DEFAULT_ACCOUNT_ACTIVATION_DAYS)\<close> yields the default when the attribute is absent.
\<close>

record settings =
  ACCOUNT_ACTIVATION_DAYS :: "int option"

definition activation_days :: "settings \<Rightarrow> int" where
  "activation_days st =
     (case ACCOUNT_ACTIVATION_DAYS st of None \<Rightarrow> DEFAULT_ACCOUNT_ACTIVATION_DAYS | Some d \<Rightarrow> d)"

text \<open>
  A LoginRegistration instance. \<open>r_contact\<close> is the foreign key to the contact,
  \<open>r_groups\<close> the primary keys of the groups; \<open>r_id\<close> is \<open>None\<close> until the row
  has been saved.
\<close>

record login_registration =
  r_id :: "nat option"
  r_contact :: nat
  r_date :: datetime
  r_activation_key :: string
  r_activated :: bool
  r_groups :: "nat list"

text \<open>
  \<^verbatim>\<open>has_expired\<close>; the second argument is the value of \<^verbatim>\<open>datetime.datetime.now()\<close>.
\<close>

definition has_expired :: "settings \<Rightarrow> datetime \<Rightarrow> login_registration \<Rightarrow> error + bool" where
  "has_expired st now self =
     (let expiration = activation_days st in
      case timedelta_of_days expiration of
        Inl e \<Rightarrow> Inl e
      | Inr expiration_date \<Rightarrow>
          (case datetime_add (r_date self) expiration_date of
             Inl e \<Rightarrow> Inl e
           | Inr t \<Rightarrow> Inr (t \<le> now)))"

section \<open>Decimal rendering of a number\<close>

text \<open>Python's \<^verbatim>\<open>"%d" % i\<close> for a natural number \<open>i\<close>.\<close>

definition digit_char :: "nat \<Rightarrow> char" where
  "digit_char d =
     (if d = 0 then CHR ''0'' else if d = 1 then CHR ''1'' else if d = 2 then CHR ''2''
      else if d = 3 then CHR ''3'' else if d = 4 then CHR ''4'' else if d = 5 then CHR ''5''
      else if d = 6 then CHR ''6'' else if d = 7 then CHR ''7'' else if d = 8 then CHR ''8''
      else CHR ''9'')"

function str_nat :: "nat \<Rightarrow> string" where
  "str_nat n = (if n < 10 then [digit_char n] else str_nat (n div 10) @ [digit_char (n mod 10)])"
  by pat_completeness auto
termination
  by (relation "measure id") auto

declare str_nat.simps [simp del]

lemma digit_char_inj: "a < 10 \<Longrightarrow> b < 10 \<Longrightarrow> digit_char a = digit_char b \<Longrightarrow> a = b"
  by (simp add: digit_char_def split: if_splits) arith

lemma str_nat_nonempty: "str_nat n \<noteq> []"
  by (subst str_nat.simps) simp

lemma str_nat_small: "n < 10 \<Longrightarrow> str_nat n = [digit_char n]"
  by (subst str_nat.simps) simp

lemma str_nat_large: "\<not> n < 10 \<Longrightarrow> str_nat n = str_nat (n div 10) @ [digit_char (n mod 10)]"
  by (subst str_nat.simps) simp

lemma str_nat_inj: "str_nat n = str_nat m \<Longrightarrow> n = m"
proof (induction n arbitrary: m rule: str_nat.induct)
  case (1 n)
  show ?case
  proof (cases "n < 10")
    case small_n: True
    show ?thesis
    proof (cases "m < 10")
      case True
      with small_n "1.prems" show ?thesis
        by (simp add: str_nat_small digit_char_inj)
    next
      case False
      with small_n "1.prems" have "str_nat (m div 10) = []"
        by (simp add: str_nat_small str_nat_large)
      then show ?thesis by (simp add: str_nat_nonempty)
    qed
  next
    case large_n: False
    show ?thesis
    proof (cases "m < 10")
      case True
      with large_n "1.prems" have "str_nat (n div 10) = []"
        by (simp add: str_nat_small str_nat_large)
      then show ?thesis by (simp add: str_nat_nonempty)
    next
      case False
      with large_n "1.prems" have fr: "str_nat (n div 10) = str_nat (m div 10)"
        and bk: "digit_char (n mod 10) = digit_char (m mod 10)"
        by (simp_all add: str_nat_large)
      from "1.IH" [OF large_n fr] have "n div 10 = m div 10" .
      moreover from bk have "n mod 10 = m mod 10" by (simp add: digit_char_inj)
      ultimately show ?thesis by (metis div_mult_mod_eq)
    qed
  qed
qed

section \<open>The helper slugify\_uniquely\<close>

text \<open>
  Modelled from the spec: \<^verbatim>\<open>slugify_uniquely\<close> is imported from
  \<^verbatim>\<open>caktus.django.db.util\<close> and its source is not part of the repository's files. The
  spec describes it as ``a simple collision-suffix loop'' that yields ``a uniquified slug''
  of a name: the slug of the name is tried first, and while the candidate is among the
  values already taken, the next candidate is the slug followed by a counter that starts
  at 1. The slug function itself (the framework's \<^verbatim>\<open>slugify\<close>) is a parameter. The third
  argument is the list of the values of the given field over the given queryset.
\<close>

function slug_loop :: "string \<Rightarrow> string list \<Rightarrow> nat \<Rightarrow> string" where
  "slug_loop new_slug_base similar_slugs i =
     (if new_slug_base @ str_nat i \<in> set similar_slugs
      then slug_loop new_slug_base similar_slugs (Suc i)
      else new_slug_base @ str_nat i)"
  by pat_completeness auto
termination
proof (relation "measure (\<lambda>(b, taken, i). card {j. i \<le> j \<and> b @ str_nat j \<in> set taken})")
  show "wf (measure (\<lambda>(b, taken, i). card {j. i \<le> j \<and> b @ str_nat j \<in> set taken}))"
    by simp
next
  fix new_slug_base :: string and similar_slugs :: "string list" and i :: nat
  assume hit: "new_slug_base @ str_nat i \<in> set similar_slugs"
  let ?cand = "\<lambda>j. new_slug_base @ str_nat j"
  let ?rest = "\<lambda>k. {j. k \<le> j \<and> ?cand j \<in> set similar_slugs}"
  have "inj ?cand"
    by (rule injI) (simp add: str_nat_inj)
  then have "finite (?cand -` set similar_slugs)"
    by (simp add: finite_vimageI)
  moreover have "?rest i \<subseteq> ?cand -` set similar_slugs" by auto
  ultimately have fin: "finite (?rest i)" by (rule rev_finite_subset)
  have "i \<in> ?rest i" using hit by simp
  moreover have "i \<notin> ?rest (Suc i)" by simp
  moreover have "?rest (Suc i) \<subseteq> ?rest i" by auto
  ultimately have "?rest (Suc i) \<subset> ?rest i" by blast
  with fin have "card (?rest (Suc i)) < card (?rest i)" by (rule psubset_card_mono)
  then show "((new_slug_base, similar_slugs, Suc i), (new_slug_base, similar_slugs, i))
      \<in> measure (\<lambda>(b, taken, i). card {j. i \<le> j \<and> b @ str_nat j \<in> set taken})"
    by simp
qed

declare slug_loop.simps [simp del]

definition slugify_uniquely :: "(string \<Rightarrow> string) \<Rightarrow> string \<Rightarrow> string list \<Rightarrow> string" where
  "slugify_uniquely slugify s similar_slugs =
     (let new_slug_base = slugify s in
      if new_slug_base \<in> set similar_slugs then slug_loop new_slug_base similar_slugs 1
      else new_slug_base)"

lemma slug_loop_fresh: "slug_loop b taken i \<notin> set taken"
proof (induction b taken i rule: slug_loop.induct)
  case (1 b taken i)
  then show ?case by (subst slug_loop.simps) simp
qed

lemma slug_loop_prefix: "prefix b (slug_loop b taken i)"
proof (induction b taken i rule: slug_loop.induct)
  case (1 b taken i)
  then show ?case by (subst slug_loop.simps) simp
qed

lemma slugify_uniquely_fresh: "slugify_uniquely sl s taken \<notin> set taken"
  by (simp add: slugify_uniquely_def Let_def slug_loop_fresh)

lemma slugify_uniquely_prefix: "prefix (sl s) (slugify_uniquely sl s taken)"
  by (simp add: slugify_uniquely_def Let_def slug_loop_prefix)

lemma slugify_uniquely_free: "sl s \<notin> set taken \<Longrightarrow> slugify_uniquely sl s taken = sl s"
  by (simp add: slugify_uniquely_def)

section \<open>Example data\<close>

definition default_settings :: settings where
  "default_settings = \<lparr>ACCOUNT_ACTIVATION_DAYS = None\<rparr>"

definition jane_registration :: login_registration where
  "jane_registration =
     \<lparr>r_id = Some 1, r_contact = 1, r_date = 0, r_activation_key = ''0123abcd'',
      r_activated = False, r_groups = []\<rparr>"

section \<open>Tables and primary keys\<close>

text \<open>
  A table is the list of its rows. An inserted row without a primary key receives one that
  no row of the table has: the successor of the largest key in use.
\<close>

definition fresh_id :: "nat list \<Rightarrow> nat" where
  "fresh_id ids = Suc (foldr max ids 0)"

section \<open>models.py: RelationshipType\<close>

record relationship_type =
  rt_id :: "nat option"
  rt_name :: string
  rt_slug :: string

text \<open>
  The \<^verbatim>\<open>save()\<close> of the framework's model base class on the RelationshipType table: an
  instance whose primary key is set and names a row updates that row, any other instance
  is inserted (under its own key when it has one, under a fresh one otherwise). Both
  columns \<open>name\<close> and \<open>slug\<close> are declared \<^verbatim>\<open>unique=True\<close>: the write raises
  IntegrityError when another row holds the same name or the same slug, and then writes
  nothing. The result is the instance (with its key) and the new table.
\<close>

definition rt_unique_clash :: "relationship_type \<Rightarrow> relationship_type list \<Rightarrow> bool" where
  "rt_unique_clash row others =
     (rt_name row \<in> set (map rt_name others) \<or> rt_slug row \<in> set (map rt_slug others))"

definition rt_model_save ::
  "relationship_type \<Rightarrow> relationship_type list
     \<Rightarrow> error + relationship_type \<times> relationship_type list" where
  "rt_model_save self table =
     (case rt_id self of
        Some k \<Rightarrow>
          if Some k \<in> set (map rt_id table)
          then (if rt_unique_clash self (filter (\<lambda>r. rt_id r \<noteq> Some k) table)
                then Inl IntegrityError
                else Inr (self, map (\<lambda>r. if rt_id r = Some k then self else r) table))
          else (if rt_unique_clash self table then Inl IntegrityError
                else Inr (self, table @ [self]))
      | None \<Rightarrow>
          if rt_unique_clash self table then Inl IntegrityError
          else (let self = self\<lparr>rt_id := Some (fresh_id (map (the \<circ> rt_id) table))\<rparr>
                in Inr (self, table @ [self])))"

text \<open>
  \<^verbatim>\<open>RelationshipType.save\<close>. The first component of the result is the instance after the
  call (its slug is assigned before the row is written, so also when the write raises);
  the second is the exception raised by the write, or the table after it.
\<close>

definition RelationshipType_save ::
  "(string \<Rightarrow> string) \<Rightarrow> relationship_type \<Rightarrow> relationship_type list
     \<Rightarrow> relationship_type \<times> (error + relationship_type list)" where
  "RelationshipType_save slugify self table =
     (let queryset = table;
          queryset = (if truthy_id (rt_id self)
                      then filter (\<lambda>r. rt_id r \<noteq> rt_id self) queryset else queryset);
          self = self\<lparr>rt_slug := slugify_uniquely slugify (rt_name self) (map rt_slug queryset)\<rparr>
      in case rt_model_save self table of
           Inl e \<Rightarrow> (self, Inl e)
         | Inr (saved, table') \<Rightarrow> (saved, Inr table'))"

text \<open>
  A sequence of saves, one instance after the other; a save that raises leaves the table
  as it was.
\<close>

fun save_each ::
  "(string \<Rightarrow> string) \<Rightarrow> relationship_type list \<Rightarrow> relationship_type list
     \<Rightarrow> relationship_type list" where
  "save_each slugify [] table = table"
| "save_each slugify (x # xs) table =
     (case snd (RelationshipType_save slugify x table) of
        Inl e \<Rightarrow> save_each slugify xs table
      | Inr table' \<Rightarrow> save_each slugify xs table')"

text \<open>
  The integrity of a table: every row has a primary key, and the keys, the names and the
  slugs are pairwise distinct.
\<close>

definition rt_table_ok :: "relationship_type list \<Rightarrow> bool" where
  "rt_table_ok table =
     (None \<notin> set (map rt_id table) \<and> distinct (map rt_id table)
      \<and> distinct (map rt_name table) \<and> distinct (map rt_slug table))"

text \<open>
  A stand-in for the framework's \<^verbatim>\<open>slugify\<close> in the examples: it turns spaces into hyphens.
\<close>

definition hyphenate :: "string \<Rightarrow> string" where
  "hyphenate s = map (\<lambda>c. if c = CHR '' '' then CHR ''-'' else c) s"

definition coworker_row :: relationship_type where
  "coworker_row = \<lparr>rt_id = Some 1, rt_name = ''co worker'', rt_slug = ''co-worker''\<rparr>"

definition new_type :: "string \<Rightarrow> relationship_type" where
  "new_type name = \<lparr>rt_id = None, rt_name = name, rt_slug = ''''\<rparr>"

chapter \<open>Properties\<close>

section \<open>Expiration of a registration\<close>

lemmas time_defs = has_expired_def timedelta_of_days_def datetime_add_def activation_days_def
  DEFAULT_ACCOUNT_ACTIVATION_DAYS_def us_per_day_def valid_datetime_def datetime_max_def

text \<open>
  C1, as stated, fails: the claim makes \<^verbatim>\<open>has_expired()\<close> true exactly when the elapsed time is
  strictly greater than the activation days. With the default of 15 days, a registration
  dated at instant 0 and asked about exactly 15 days later is reported as expired, although
  the elapsed time is not strictly greater than 15 days.
\<close>

theorem has_expired_boundary_counterexample:
  "\<not> (has_expired default_settings (15 * us_per_day) jane_registration = Inr True
       \<longleftrightarrow> activation_days default_settings * us_per_day
            < 15 * us_per_day - r_date jane_registration)"
  by (simp add: time_defs default_settings_def jane_registration_def)

text \<open>
  C1, amended: whenever the registration's date plus the activation days is a representable
  date (otherwise the addition raises OverflowError), \<^verbatim>\<open>has_expired()\<close> returns true if
  and only if the elapsed time since the date is greater than or equal to the activation
  days; the day count is the setting \<^verbatim>\<open>ACCOUNT_ACTIVATION_DAYS\<close> when it is present and 15
  otherwise.
\<close>

theorem has_expired_iff_elapsed_ge:
  assumes "- 999999999 \<le> activation_days st" and "activation_days st \<le> 999999999"
    and "valid_datetime (r_date self + activation_days st * us_per_day)"
  shows "has_expired st now self = Inr (activation_days st * us_per_day \<le> now - r_date self)
       \<and> activation_days (st\<lparr>ACCOUNT_ACTIVATION_DAYS := None\<rparr>) = 15
       \<and> activation_days (st\<lparr>ACCOUNT_ACTIVATION_DAYS := Some d\<rparr>) = d"
  using assms
  by (auto simp: has_expired_def timedelta_of_days_def datetime_add_def Let_def
        activation_days_def DEFAULT_ACCOUNT_ACTIVATION_DAYS_def)

text \<open>
  The spec's example: a registration created on day 0, with 15 activation days, is not
  expired on day 14 and is expired on day 16 (and already on day 15).
\<close>

theorem has_expired_iff_elapsed_ge_witness:
  "has_expired default_settings (14 * us_per_day) jane_registration = Inr False
   \<and> has_expired default_settings (15 * us_per_day) jane_registration = Inr True
   \<and> has_expired default_settings (16 * us_per_day) jane_registration = Inr True
   \<and> activation_days default_settings = 15"
proof -
  have lo: "- 999999999 \<le> activation_days default_settings"
    and hi: "activation_days default_settings \<le> 999999999"
    and ok: "valid_datetime
               (r_date jane_registration + activation_days default_settings * us_per_day)"
    by (simp_all add: time_defs default_settings_def jane_registration_def)
  note th = has_expired_iff_elapsed_ge [OF lo hi ok]
  from th [of "14 * us_per_day"] th [of "15 * us_per_day"] th [of "16 * us_per_day"]
  show ?thesis
    by (simp add: activation_days_def DEFAULT_ACCOUNT_ACTIVATION_DAYS_def us_per_day_def
          default_settings_def jane_registration_def)
qed

section \<open>Unique slugs of relationship types\<close>

lemma foldr_max_ge: "k \<in> set ks \<Longrightarrow> k \<le> foldr max ks (0::nat)"
  by (induction ks) (auto simp: max_def)

lemma fresh_id_notin: "fresh_id ks \<notin> set ks"
  using foldr_max_ge [of "fresh_id ks" ks] by (auto simp: fresh_id_def)

lemma fresh_id_notin_keys:
  assumes "None \<notin> set (map key rows)"
  shows "Some (fresh_id (map (the \<circ> key) rows)) \<notin> set (map key rows)"
proof
  assume "Some (fresh_id (map (the \<circ> key) rows)) \<in> set (map key rows)"
  then obtain r where "r \<in> set rows" and "key r = Some (fresh_id (map (the \<circ> key) rows))"
    by auto
  then have "fresh_id (map (the \<circ> key) rows) \<in> set (map (the \<circ> key) rows)"
    by force
  then show False by (simp only: fresh_id_notin)
qed

lemma replace_absent:
  "k \<notin> set (map key xs) \<Longrightarrow> map (\<lambda>x. if key x = k then y else x) xs = xs"
  by (induction xs) auto

lemma replace_keys:
  "key y = k \<Longrightarrow> map key (map (\<lambda>x. if key x = k then y else x) xs) = map key xs"
  by (induction xs) auto

lemma replace_distinct:
  assumes "distinct (map key xs)" and "distinct (map f xs)"
    and "f y \<notin> set (map f (filter (\<lambda>x. key x \<noteq> k) xs))"
  shows "distinct (map f (map (\<lambda>x. if key x = k then y else x) xs))"
  using assms
proof (induction xs)
  case Nil
  then show ?case by simp
next
  case (Cons x xs)
  show ?case
  proof (cases "key x = k")
    case True
    with Cons.prems(1) have absent: "k \<notin> set (map key xs)" by auto
    then have same: "map (\<lambda>x. if key x = k then y else x) xs = xs"
      by (rule replace_absent)
    from absent have "filter (\<lambda>x. key x \<noteq> k) xs = xs"
      by (auto simp: filter_id_conv)
    with Cons.prems(3) True have "f y \<notin> set (map f xs)" by simp
    with Cons.prems(2) True same show ?thesis by simp
  next
    case False
    from Cons.prems have d1: "distinct (map key xs)" and d2: "distinct (map f xs)"
      and out: "f x \<notin> set (map f xs)" by simp_all
    from Cons.prems(3) False have ne: "f x \<noteq> f y"
      and rest: "f y \<notin> set (map f (filter (\<lambda>x. key x \<noteq> k) xs))" by auto
    from d1 d2 rest have ih: "distinct (map f (map (\<lambda>x. if key x = k then y else x) xs))"
      by (rule Cons.IH)
    have "f x \<notin> set (map f (map (\<lambda>x. if key x = k then y else x) xs))"
      using ne out by (auto split: if_splits)
    with ih False show ?thesis by simp
  qed
qed

lemma rt_model_save_ok:
  assumes "rt_table_ok table" and "rt_model_save self table = Inr (saved, table')"
  shows "rt_table_ok table'"
proof (cases "rt_id self")
  case None
  with assms(2) have clash: "\<not> rt_unique_clash self table"
    and t': "table' = table @ [self\<lparr>rt_id := Some (fresh_id (map (the \<circ> rt_id) table))\<rparr>]"
    by (auto simp: rt_model_save_def Let_def split: if_splits)
  from assms(1) have "Some (fresh_id (map (the \<circ> rt_id) table)) \<notin> set (map rt_id table)"
    by (intro fresh_id_notin_keys) (simp add: rt_table_ok_def)
  with assms(1) clash t' show ?thesis
    by (auto simp: rt_table_ok_def rt_unique_clash_def)
next
  case (Some k)
  show ?thesis
  proof (cases "Some k \<in> set (map rt_id table)")
    case True
    with Some assms(2)
    have clash: "\<not> rt_unique_clash self (filter (\<lambda>r. rt_id r \<noteq> Some k) table)"
      and t': "table' = map (\<lambda>r. if rt_id r = Some k then self else r) table"
      by (auto simp: rt_model_save_def split: if_splits)
    from assms(1) have ids: "distinct (map rt_id table)" and nm: "distinct (map rt_name table)"
      and sl: "distinct (map rt_slug table)" and nn: "None \<notin> set (map rt_id table)"
      by (simp_all add: rt_table_ok_def)
    from clash have a: "rt_name self \<notin> set (map rt_name (filter (\<lambda>r. rt_id r \<noteq> Some k) table))"
      and b: "rt_slug self \<notin> set (map rt_slug (filter (\<lambda>r. rt_id r \<noteq> Some k) table))"
      by (simp_all add: rt_unique_clash_def)
    have keys: "map rt_id table' = map rt_id table"
      unfolding t' using Some by (rule replace_keys)
    have "distinct (map rt_name table')"
      unfolding t' using ids nm a by (rule replace_distinct)
    moreover have "distinct (map rt_slug table')"
      unfolding t' using ids sl b by (rule replace_distinct)
    ultimately show ?thesis using keys ids nn by (simp add: rt_table_ok_def)
  next
    case False
    with Some assms(2) have clash: "\<not> rt_unique_clash self table" and t': "table' = table @ [self]"
      by (auto simp: rt_model_save_def split: if_splits)
    with assms(1) Some False show ?thesis
      by (auto simp: rt_table_ok_def rt_unique_clash_def)
  qed
qed

lemma rt_model_save_error:
  assumes "rt_model_save self table = Inl e" and "None \<notin> set (map rt_id table)"
  shows "e = IntegrityError \<and> rt_unique_clash self (filter (\<lambda>r. rt_id r \<noteq> rt_id self) table)"
proof (cases "rt_id self \<in> set (map rt_id table)")
  case True
  with assms show ?thesis
    by (auto simp: rt_model_save_def split: option.splits if_splits)
next
  case False
  then have "\<forall>r\<in>set table. rt_id r \<noteq> rt_id self"
    by (metis image_eqI list.set_map)
  then have same: "filter (\<lambda>r. rt_id r \<noteq> rt_id self) table = table"
    by (simp add: filter_id_conv)
  from assms(1) False have "e = IntegrityError" and "rt_unique_clash self table"
    by (auto simp: rt_model_save_def Let_def split: option.splits if_splits)
  with same show ?thesis by simp
qed

lemma RelationshipType_save_slug:
  "rt_slug (fst (RelationshipType_save sl self table)) =
     slugify_uniquely sl (rt_name self)
       (map rt_slug (if truthy_id (rt_id self)
                     then filter (\<lambda>r. rt_id r \<noteq> rt_id self) table else table))"
  by (auto simp: RelationshipType_save_def rt_model_save_def Let_def
        split: option.splits sum.splits)

lemma RelationshipType_save_name:
  "rt_name (fst (RelationshipType_save sl self table)) = rt_name self"
  by (auto simp: RelationshipType_save_def rt_model_save_def Let_def
        split: option.splits sum.splits)

lemma RelationshipType_save_slug_fresh:
  "rt_slug (fst (RelationshipType_save sl self table))
     \<notin> set (map rt_slug (filter (\<lambda>r. rt_id r \<noteq> rt_id self) table))"
proof (cases "truthy_id (rt_id self)")
  case True
  then show ?thesis
    by (simp only: RelationshipType_save_slug if_True slugify_uniquely_fresh not_False_eq_True)
next
  case False
  have "rt_slug (fst (RelationshipType_save sl self table)) \<notin> set (map rt_slug table)"
    using False by (simp only: RelationshipType_save_slug if_False slugify_uniquely_fresh
        not_False_eq_True)
  then show ?thesis by auto
qed

lemma RelationshipType_save_table_ok:
  assumes "rt_table_ok table" and "snd (RelationshipType_save sl self table) = Inr table'"
  shows "rt_table_ok table'"
proof -
  let ?self = "self\<lparr>rt_slug := slugify_uniquely sl (rt_name self)
       (map rt_slug (if truthy_id (rt_id self)
                     then filter (\<lambda>r. rt_id r \<noteq> rt_id self) table else table))\<rparr>"
  from assms(2) obtain saved where "rt_model_save ?self table = Inr (saved, table')"
    by (auto simp: RelationshipType_save_def Let_def split: sum.splits)
  with assms(1) show ?thesis by (rule rt_model_save_ok)
qed

lemma RelationshipType_save_error:
  assumes "rt_table_ok table" and "snd (RelationshipType_save sl self table) = Inl e"
  shows "e = IntegrityError
       \<and> rt_name self \<in> set (map rt_name (filter (\<lambda>r. rt_id r \<noteq> rt_id self) table))"
proof -
  let ?q = "if truthy_id (rt_id self)
            then filter (\<lambda>r. rt_id r \<noteq> rt_id self) table else table"
  let ?self = "self\<lparr>rt_slug := slugify_uniquely sl (rt_name self) (map rt_slug ?q)\<rparr>"
  from assms(2) have "rt_model_save ?self table = Inl e"
    by (auto simp: RelationshipType_save_def Let_def split: sum.splits)
  moreover from assms(1) have "None \<notin> set (map rt_id table)" by (simp add: rt_table_ok_def)
  ultimately have e: "e = IntegrityError"
    and clash: "rt_unique_clash ?self (filter (\<lambda>r. rt_id r \<noteq> rt_id ?self) table)"
    using rt_model_save_error [of ?self table e] by simp_all
  have "rt_slug ?self = rt_slug (fst (RelationshipType_save sl self table))"
    by (simp add: RelationshipType_save_slug)
  then have "rt_slug ?self \<notin> set (map rt_slug (filter (\<lambda>r. rt_id r \<noteq> rt_id self) table))"
    by (simp only: RelationshipType_save_slug_fresh not_False_eq_True)
  with clash have "rt_name self \<in> set (map rt_name (filter (\<lambda>r. rt_id r \<noteq> rt_id self) table))"
    by (simp add: rt_unique_clash_def)
  with e show ?thesis by simp
qed

lemma save_each_table_ok: "rt_table_ok table \<Longrightarrow> rt_table_ok (save_each sl xs table)"
proof (induction xs arbitrary: table)
  case Nil
  then show ?case by simp
next
  case (Cons x xs)
  show ?case
  proof (cases "snd (RelationshipType_save sl x table)")
    case (Inl e)
    with Cons show ?thesis by simp
  next
    case (Inr table')
    with Cons.prems have "rt_table_ok table'" by (rule RelationshipType_save_table_ok)
    then have "rt_table_ok (save_each sl xs table')" by (rule Cons.IH)
    with Inr show ?thesis by simp
  qed
qed

lemma rt_model_save_stored:
  assumes "rt_model_save self table = Inr (saved, table')"
  shows "saved \<in> set table'"
proof (cases "rt_id self")
  case None
  with assms show ?thesis
    by (auto simp: rt_model_save_def Let_def split: if_splits)
next
  case (Some k)
  show ?thesis
  proof (cases "Some k \<in> set (map rt_id table)")
    case True
    then obtain r where r: "r \<in> set table" "rt_id r = Some k" by force
    from assms Some True have "saved = self"
      and "table' = map (\<lambda>r. if rt_id r = Some k then self else r) table"
      by (simp_all add: rt_model_save_def split: if_splits)
    with r show ?thesis by force
  next
    case False
    with assms Some show ?thesis
      by (simp add: rt_model_save_def split: if_splits) auto
  qed
qed

lemma RelationshipType_save_stored:
  assumes "snd (RelationshipType_save sl self table) = Inr table'"
  shows "fst (RelationshipType_save sl self table) \<in> set table'"
  using assms
  by (auto simp: RelationshipType_save_def Let_def split: sum.splits dest: rt_model_save_stored)

text \<open>
  C5: \<^verbatim>\<open>RelationshipType.save()\<close> gives the instance a slug that starts with the slug of its
  name and differs from the slug of every other row of the table, whatever the instance's
  name is (also a name that another row has). On a table that satisfies its key and
  uniqueness constraints, the row is then written and the new table satisfies them again,
  with the instance among its rows; the write raises only IntegrityError and only when
  another row has the instance's name, never because of the slug. Hence after any
  sequence of saves the slugs of the table are pairwise distinct.
\<close>

theorem RelationshipType_save_unique_slug:
  "rt_slug (fst (RelationshipType_save sl self table))
     \<notin> set (map rt_slug (filter (\<lambda>r. rt_id r \<noteq> rt_id self) table))
   \<and> prefix (sl (rt_name self)) (rt_slug (fst (RelationshipType_save sl self table)))
   \<and> (rt_table_ok table \<longrightarrow>
        (case snd (RelationshipType_save sl self table) of
           Inl e \<Rightarrow> e = IntegrityError
             \<and> rt_name self \<in> set (map rt_name (filter (\<lambda>r. rt_id r \<noteq> rt_id self) table))
         | Inr table' \<Rightarrow> rt_table_ok table'
             \<and> fst (RelationshipType_save sl self table) \<in> set table')
        \<and> distinct (map rt_slug (save_each sl xs table)))
   \<and> distinct (map rt_slug (save_each sl xs []))"
proof (intro conjI impI)
  show "rt_slug (fst (RelationshipType_save sl self table))
     \<notin> set (map rt_slug (filter (\<lambda>r. rt_id r \<noteq> rt_id self) table))"
    by (rule RelationshipType_save_slug_fresh)
  show "prefix (sl (rt_name self)) (rt_slug (fst (RelationshipType_save sl self table)))"
    by (simp only: RelationshipType_save_slug slugify_uniquely_prefix)
  have "rt_table_ok []" by (simp add: rt_table_ok_def)
  then have "rt_table_ok (save_each sl xs [])" by (rule save_each_table_ok)
  then show "distinct (map rt_slug (save_each sl xs []))" by (simp add: rt_table_ok_def)
next
  assume ok: "rt_table_ok table"
  then have "rt_table_ok (save_each sl xs table)" by (rule save_each_table_ok)
  then show "distinct (map rt_slug (save_each sl xs table))" by (simp add: rt_table_ok_def)
  show "case snd (RelationshipType_save sl self table) of
           Inl e \<Rightarrow> e = IntegrityError
             \<and> rt_name self \<in> set (map rt_name (filter (\<lambda>r. rt_id r \<noteq> rt_id self) table))
         | Inr table' \<Rightarrow> rt_table_ok table'
             \<and> fst (RelationshipType_save sl self table) \<in> set table'"
  proof (cases "snd (RelationshipType_save sl self table)")
    case (Inl e)
    with ok have "e = IntegrityError
       \<and> rt_name self \<in> set (map rt_name (filter (\<lambda>r. rt_id r \<noteq> rt_id self) table))"
      by (rule RelationshipType_save_error)
    with Inl show ?thesis by simp
  next
    case (Inr table')
    with ok show ?thesis
      by (simp add: RelationshipType_save_table_ok RelationshipType_save_stored)
  qed
qed

lemmas slug_eval = RelationshipType_save_def rt_model_save_def rt_unique_clash_def
  slugify_uniquely_def slug_loop.simps str_nat.simps digit_char_def fresh_id_def
  hyphenate_def coworker_row_def new_type_def rt_table_ok_def Let_def

text \<open>
  Two saves into a table that holds the row ``co worker'': a new type named ``co-worker''
  has the same slug as that row and is stored under the slug ``co-worker1''; a new type
  with the very name ``co worker'' gets the slug ``co-worker1'' too, and its write is
  refused for the name.
\<close>

theorem RelationshipType_save_unique_slug_witness:
  "rt_table_ok [coworker_row]
   \<and> RelationshipType_save hyphenate (new_type ''co-worker'') [coworker_row] =
       (\<lparr>rt_id = Some 2, rt_name = ''co-worker'', rt_slug = ''co-worker1''\<rparr>,
        Inr [coworker_row, \<lparr>rt_id = Some 2, rt_name = ''co-worker'', rt_slug = ''co-worker1''\<rparr>])
   \<and> rt_table_ok [coworker_row, \<lparr>rt_id = Some 2, rt_name = ''co-worker'', rt_slug = ''co-worker1''\<rparr>]
   \<and> distinct (map rt_slug (save_each hyphenate [new_type ''co-worker''] [coworker_row]))
   \<and> RelationshipType_save hyphenate (new_type ''co worker'') [coworker_row] =
       (\<lparr>rt_id = None, rt_name = ''co worker'', rt_slug = ''co-worker1''\<rparr>, Inl IntegrityError)"
proof -
  have ok: "rt_table_ok [coworker_row]" by (simp add: slug_eval)
  have first: "RelationshipType_save hyphenate (new_type ''co-worker'') [coworker_row] =
       (\<lparr>rt_id = Some 2, rt_name = ''co-worker'', rt_slug = ''co-worker1''\<rparr>,
        Inr [coworker_row, \<lparr>rt_id = Some 2, rt_name = ''co-worker'', rt_slug = ''co-worker1''\<rparr>])"
    by (simp add: slug_eval)
  have second: "RelationshipType_save hyphenate (new_type ''co worker'') [coworker_row] =
       (\<lparr>rt_id = None, rt_name = ''co worker'', rt_slug = ''co-worker1''\<rparr>, Inl IntegrityError)"
    by (simp add: slug_eval)
  from RelationshipType_save_unique_slug
    [of hyphenate "new_type ''co-worker''" "[coworker_row]" "[new_type ''co-worker'']"] ok first
  have "rt_table_ok [coworker_row, \<lparr>rt_id = Some 2, rt_name = ''co-worker'', rt_slug = ''co-worker1''\<rparr>]"
    and "distinct (map rt_slug (save_each hyphenate [new_type ''co-worker''] [coworker_row]))"
    by simp_all
  with ok first second show ?thesis by simp
qed

end
